theory Spec2Isabelle
  imports Main
begin

section \<open>Text buffers\<close>

text \<open>
  A Python \<^verbatim>\<open>str\<close> is a sequence of Unicode code points; \<^verbatim>\<open>for char in content\<close>,
  \<^verbatim>\<open>str.replace\<close>, \<^verbatim>\<open>str.count\<close> and \<^verbatim>\<open>len\<close> all work on code points. A buffer is
  therefore a list of code points, each a natural number. (HOL's \<open>char\<close> is a byte and
  cannot hold \<^verbatim>\<open>U+201C\<close>.)
\<close>

type_synonym uchar = nat
type_synonym ustring = "uchar list"

text \<open>The code points of an ASCII literal, used to write paths and suffixes readably.\<close>

definition ustr :: "string \<Rightarrow> ustring" where
  "ustr s = map of_char s"

section \<open>Constants of \<^verbatim>\<open>replace-quotes.py\<close>\<close>

text \<open>\<^verbatim>\<open>SUPPORTED_EXTENSIONS = {'.tex', '.txt', '.md', '.markdown', '.rst', '.org'}\<close>\<close>

definition SUPPORTED_EXTENSIONS :: "ustring set" where
  "SUPPORTED_EXTENSIONS =
     {ustr ''.tex'', ustr ''.txt'', ustr ''.md'', ustr ''.markdown'', ustr ''.rst'', ustr ''.org''}"

text \<open>\<^verbatim>\<open>QUOTES_TO_REPLACE\<close>, in the order of the source list.\<close>

definition QUOTES_TO_REPLACE :: "uchar list" where
  "QUOTES_TO_REPLACE = [0x201C, 0x201D, 0x201E, 0x201F, 0x2033, 0x301D, 0x301E, 0xFF02]"

definition LEFT_QUOTE :: uchar where
  "LEFT_QUOTE = 0x201C"

definition RIGHT_QUOTE :: uchar where
  "RIGHT_QUOTE = 0x201D"

text \<open>The literal \<^verbatim>\<open>'"'\<close> of lines 70, 73, 79 and 99.\<close>

definition ASCII_QUOTE :: uchar where
  "ASCII_QUOTE = 0x22"

section \<open>The transformation of the content (lines 68 to 89)\<close>

text \<open>
  \<^verbatim>\<open>content.replace(quote, '"')\<close>, where both arguments are strings of one character:
  every occurrence of the character is replaced, all others are kept.
\<close>

definition str_replace :: "ustring \<Rightarrow> uchar \<Rightarrow> uchar \<Rightarrow> ustring" where
  "str_replace s old new = map (\<lambda>c. if c = old then new else c) s"

text \<open>
  Lines 69 and 70:
  \<^verbatim>\<open>for quote in QUOTES_TO_REPLACE: content = content.replace(quote, '"')\<close>
\<close>

definition fold_variants :: "ustring \<Rightarrow> ustring" where
  "fold_variants content =
     foldl (\<lambda>content quote. str_replace content quote ASCII_QUOTE) content QUOTES_TO_REPLACE"

text \<open>
  Lines 76 to 87: the loop over the characters of the content, with its two variables
  \<^verbatim>\<open>result\<close> (a list that is appended to) and \<^verbatim>\<open>is_opening\<close>. The first argument
  is the part of the content not yet visited.
\<close>

fun pair_loop :: "ustring \<Rightarrow> ustring \<Rightarrow> bool \<Rightarrow> ustring" where
  "pair_loop [] result is_opening = result"
| "pair_loop (char # rest) result is_opening =
     (if char = ASCII_QUOTE then
        (if is_opening then pair_loop rest (result @ [LEFT_QUOTE]) False
         else pair_loop rest (result @ [RIGHT_QUOTE]) True)
      else pair_loop rest (result @ [char]) is_opening)"

text \<open>
  Lines 69 to 89 together: fold, then pair starting with \<^verbatim>\<open>result = []\<close> and
  \<^verbatim>\<open>is_opening = True\<close>; \<^verbatim>\<open>''.join(result)\<close> is the list of characters itself.
\<close>

definition normalizer :: "ustring \<Rightarrow> ustring" where
  "normalizer content = pair_loop (fold_variants content) [] True"

text \<open>
  What \<open>fold_variants\<close> does to one character (used to state and prove that the eight
  replacements amount to one pass).
\<close>

definition fold_char :: "uchar \<Rightarrow> uchar" where
  "fold_char c = (if c \<in> set QUOTES_TO_REPLACE then ASCII_QUOTE else c)"

section \<open>The environment: paths, files, library calls\<close>

text \<open>
  The script calls into Python's standard library and, through it, the file system. Neither
  is code of the script; they are modelled here as far as the script can observe them.

  \<^item> Paths are Python strings. \<open>os.path\<close> is \<open>posixpath\<close>: the separator is \<^verbatim>\<open>/\<close>.
  \<^item> A path names nothing, a directory, or a regular file with its bytes and two permission
    bits. Symbolic and hard links are not modelled.
  \<^item> Whether a new file may be created at a path (\<open>creatable\<close>) and whether the device
    accepts a file's bytes (\<open>room\<close>) are given by the world; a write that finds no room
    leaves the file truncated.
  \<^item> The UTF-8 codec of \<^verbatim>\<open>open(..., encoding='utf-8')\<close> (with the newline translation
    of text mode) and the lower-casing of non-ASCII characters are tables of the Python
    runtime; they are parameters (\<open>platform\<close>), and every theorem holds for all of them.
  \<^item> Every call that copies, reads or writes is recorded in the world's \<open>trace\<close>, at the
    moment it is made and whatever its outcome, together with what is printed; so
    "no backup is attempted" and "the content is not read" can be stated.
  \<^item> \<^verbatim>\<open>print\<close> is taken to succeed.
\<close>

type_synonym path = ustring

datatype exn =
    FileNotFoundError
  | IsADirectoryError
  | PermissionError
  | SameFileError
  | UnicodeDecodeError
  | UnicodeEncodeError
  | NoSpaceError

text \<open>
  The second component of the pair that \<^verbatim>\<open>replace_quotes_in_file\<close> returns is a
  human-readable string. Its structure is kept, its wording is not: one constructor for each
  of the six \<^verbatim>\<open>return\<close> statements (lines 44, 49, 59, 66, 96 and 109), named after the
  spec's error taxonomy, with the values that the f-string interpolates.
\<close>

datatype message =
    NotFoundError path
  | UnsupportedTypeError ustring
  | BackupError exn
  | ReadError exn
  | WriteError exn
  | Completed nat nat nat nat

datatype printed =
    Banner path
  | BackupCreated path
  | Message message
  | Summary nat nat

datatype event =
    Copy2 path path
  | OpenRead path
  | OpenWrite path
  | Stdout printed
  | Stderr message

datatype node =
    Dir
  | File (data: "nat list") (readable: bool) (writable: bool)

record world =
  nodes :: "path \<Rightarrow> node option"
  creatable :: "path \<Rightarrow> bool"
  room :: "nat list \<Rightarrow> bool"
  trace :: "event list"

record platform =
  lower_nonascii :: "ustring \<Rightarrow> nat \<Rightarrow> ustring"
  decode :: "nat list \<Rightarrow> ustring option"
  encode :: "ustring \<Rightarrow> nat list option"

definition emit :: "world \<Rightarrow> event \<Rightarrow> world" where
  "emit w e = w\<lparr>trace := trace w @ [e]\<rparr>"

definition put :: "world \<Rightarrow> path \<Rightarrow> node \<Rightarrow> world" where
  "put w p n = w\<lparr>nodes := (nodes w)(p \<mapsto> n)\<rparr>"

subsection \<open>\<open>os.path\<close>\<close>

definition SEP :: uchar where
  "SEP = 0x2F"

definition DOT :: uchar where
  "DOT = 0x2E"

text \<open>\<^verbatim>\<open>os.path.exists\<close>: true for a file and for a directory.\<close>

definition os_path_exists :: "world \<Rightarrow> path \<Rightarrow> bool" where
  "os_path_exists w p = (case nodes w p of None \<Rightarrow> False | Some n \<Rightarrow> True)"

definition os_path_isdir :: "world \<Rightarrow> path \<Rightarrow> bool" where
  "os_path_isdir w p = (case nodes w p of Some Dir \<Rightarrow> True | _ \<Rightarrow> False)"

text \<open>
  \<^verbatim>\<open>p.rfind(c)\<close> for a one-character \<open>c\<close>: the highest index holding \<open>c\<close>, or \<open>-1\<close>.
  \<open>rfind_below p c n\<close> searches the indices below \<open>n\<close>, downwards.
\<close>

fun rfind_below :: "ustring \<Rightarrow> uchar \<Rightarrow> nat \<Rightarrow> int" where
  "rfind_below p c 0 = - 1"
| "rfind_below p c (Suc i) = (if p ! i = c then int i else rfind_below p c i)"

definition rfind :: "ustring \<Rightarrow> uchar \<Rightarrow> int" where
  "rfind p c = rfind_below p c (length p)"

text \<open>
  \<^verbatim>\<open>genericpath._splitext(p, '/', None, '.')\<close>, which is \<^verbatim>\<open>os.path.splitext(p)\<close>:
  \<^verbatim>\<open>
    sepIndex = p.rfind(sep)
    dotIndex = p.rfind(extsep)
    if dotIndex > sepIndex:
        # skip all leading dots
        filenameIndex = sepIndex + 1
        while filenameIndex < dotIndex:
            if p[filenameIndex:filenameIndex+1] != extsep:
                return p[:dotIndex], p[dotIndex:]
            filenameIndex += 1
    return p, p[:0]
  \<close>
\<close>

function splitext_loop :: "path \<Rightarrow> nat \<Rightarrow> nat \<Rightarrow> path \<times> ustring" where
  "splitext_loop p filenameIndex dotIndex =
     (if filenameIndex < dotIndex then
        (if p ! filenameIndex \<noteq> DOT then (take dotIndex p, drop dotIndex p)
         else splitext_loop p (filenameIndex + 1) dotIndex)
      else (p, []))"
  by pat_completeness auto
termination
  by (relation "measure (\<lambda>(p, filenameIndex, dotIndex). dotIndex - filenameIndex)") auto

definition splitext :: "path \<Rightarrow> path \<times> ustring" where
  "splitext p =
     (let sepIndex = rfind p SEP;
          dotIndex = rfind p DOT
      in if dotIndex > sepIndex then splitext_loop p (nat (sepIndex + 1)) (nat dotIndex)
         else (p, []))"

text \<open>\<^verbatim>\<open>posixpath.basename\<close>: \<^verbatim>\<open>i = p.rfind('/') + 1; return p[i:]\<close>\<close>

definition basename :: "path \<Rightarrow> path" where
  "basename p = drop (nat (rfind p SEP + 1)) p"

text \<open>\<^verbatim>\<open>posixpath.join(a, b)\<close> for two components.\<close>

definition path_join :: "path \<Rightarrow> path \<Rightarrow> path" where
  "path_join a b =
     (if b \<noteq> [] \<and> hd b = SEP then b
      else if a = [] \<or> last a = SEP then a @ b
      else a @ [SEP] @ b)"

subsection \<open>\<open>str.lower\<close>\<close>

text \<open>
  On an ASCII character \<^verbatim>\<open>str.lower\<close> maps \<^verbatim>\<open>A\<close>..\<^verbatim>\<open>Z\<close> to \<^verbatim>\<open>a\<close>..\<^verbatim>\<open>z\<close> and keeps every
  other one. What a non-ASCII character becomes (possibly several characters, and for the
  capital sigma depending on its neighbours) is the platform's table, asked with the
  string and the position.
\<close>

definition ascii_lower :: "uchar \<Rightarrow> uchar" where
  "ascii_lower c = (if 0x41 \<le> c \<and> c \<le> 0x5A then c + 0x20 else c)"

definition str_lower :: "platform \<Rightarrow> ustring \<Rightarrow> ustring" where
  "str_lower P s =
     concat (map (\<lambda>i. if s ! i < 0x80 then [ascii_lower (s ! i)] else lower_nonascii P s i)
                 [0..<length s])"

subsection \<open>\<open>shutil.copy2\<close>, reading and writing\<close>

text \<open>
  \<^verbatim>\<open>shutil.copyfile(src, dst)\<close>: refuses to copy a file onto itself, opens the source for
  reading, then the destination for writing (which creates or truncates it), then copies
  the bytes.
\<close>

definition copyfile :: "world \<Rightarrow> path \<Rightarrow> path \<Rightarrow> exn option \<times> world" where
  "copyfile w src dst =
     (if os_path_exists w src \<and> src = dst then (Some SameFileError, w)
      else case nodes w src of
        None \<Rightarrow> (Some FileNotFoundError, w)
      | Some Dir \<Rightarrow> (Some IsADirectoryError, w)
      | Some (File d r wr) \<Rightarrow>
          if \<not> r then (Some PermissionError, w)
          else (case nodes w dst of
              Some Dir \<Rightarrow> (Some IsADirectoryError, w)
            | Some (File d' r' wr') \<Rightarrow>
                if \<not> wr' then (Some PermissionError, w)
                else if room w d then (None, put w dst (File d r' wr'))
                else (Some NoSpaceError, put w dst (File [] r' wr'))
            | None \<Rightarrow>
                if \<not> creatable w dst then (Some PermissionError, w)
                else if room w d then (None, put w dst (File d True True))
                else (Some NoSpaceError, put w dst (File [] True True))))"

text \<open>\<^verbatim>\<open>shutil.copystat(src, dst)\<close>: the permission bits of the source go to the copy.\<close>

definition copystat :: "world \<Rightarrow> path \<Rightarrow> path \<Rightarrow> world" where
  "copystat w src dst =
     (case (nodes w src, nodes w dst) of
        (Some (File d r wr), Some (File d' r' wr')) \<Rightarrow> put w dst (File d' r wr)
      | _ \<Rightarrow> w)"

text \<open>
  \<^verbatim>\<open>shutil.copy2(src, dst)\<close>:
  \<^verbatim>\<open>
    if os.path.isdir(dst):
        dst = os.path.join(dst, os.path.basename(src))
    copyfile(src, dst)
    copystat(src, dst)
  \<close>
  The path that receives the copy is \<open>copy2_target\<close>.
\<close>

definition copy2_target :: "world \<Rightarrow> path \<Rightarrow> path \<Rightarrow> path" where
  "copy2_target w src dst =
     (if os_path_isdir w dst then path_join dst (basename src) else dst)"

definition shutil_copy2 :: "world \<Rightarrow> path \<Rightarrow> path \<Rightarrow> exn option \<times> world" where
  "shutil_copy2 w src dst =
     (let w1 = emit w (Copy2 src dst);
          dst' = copy2_target w1 src dst
      in case copyfile w1 src dst' of
           (Some e, w2) \<Rightarrow> (Some e, w2)
         | (None, w2) \<Rightarrow> (None, copystat w2 src dst'))"

text \<open>\<^verbatim>\<open>with open(filepath, 'r', encoding='utf-8') as f: content = f.read()\<close>\<close>

definition read_text :: "platform \<Rightarrow> world \<Rightarrow> path \<Rightarrow> (exn + ustring) \<times> world" where
  "read_text P w p =
     (let w1 = emit w (OpenRead p)
      in case nodes w1 p of
           None \<Rightarrow> (Inl FileNotFoundError, w1)
         | Some Dir \<Rightarrow> (Inl IsADirectoryError, w1)
         | Some (File d r wr) \<Rightarrow>
             if \<not> r then (Inl PermissionError, w1)
             else (case decode P d of
                 None \<Rightarrow> (Inl UnicodeDecodeError, w1)
               | Some content \<Rightarrow> (Inr content, w1)))"

text \<open>
  \<^verbatim>\<open>with open(filepath, 'w', encoding='utf-8') as f: f.write(content)\<close>: opening
  truncates (or creates) the file; an error after that leaves it empty.
\<close>

definition write_text :: "platform \<Rightarrow> world \<Rightarrow> path \<Rightarrow> ustring \<Rightarrow> exn option \<times> world" where
  "write_text P w p content =
     (let w1 = emit w (OpenWrite p)
      in case nodes w1 p of
           Some Dir \<Rightarrow> (Some IsADirectoryError, w1)
         | Some (File d r wr) \<Rightarrow>
             if \<not> wr then (Some PermissionError, w1)
             else (case encode P content of
                 None \<Rightarrow> (Some UnicodeEncodeError, put w1 p (File [] r wr))
               | Some bytes \<Rightarrow>
                   if room w1 bytes then (None, put w1 p (File bytes r wr))
                   else (Some NoSpaceError, put w1 p (File [] r wr)))
         | None \<Rightarrow>
             if \<not> creatable w1 p then (Some PermissionError, w1)
             else (case encode P content of
                 None \<Rightarrow> (Some UnicodeEncodeError, put w1 p (File [] True True))
               | Some bytes \<Rightarrow>
                   if room w1 bytes then (None, put w1 p (File bytes True True))
                   else (Some NoSpaceError, put w1 p (File [] True True))))"

section \<open>\<^verbatim>\<open>replace_quotes_in_file\<close> (lines 31 to 109)\<close>

text \<open>
  Lines 52 to 59, with \<^verbatim>\<open>backup\<close> true: the copy to \<^verbatim>\<open>filepath + '.bak'\<close> and the
  line printed after it; \<^verbatim>\<open>except Exception as e\<close> turns a failure into a value.
\<close>

definition backup_step :: "world \<Rightarrow> path \<Rightarrow> exn option \<times> world" where
  "backup_step w filepath =
     (let backup_path = filepath @ ustr ''.bak''
      in case shutil_copy2 w filepath backup_path of
           (Some e, w1) \<Rightarrow> (Some e, w1)
         | (None, w1) \<Rightarrow> (None, emit w1 (Stdout (BackupCreated backup_path))))"

text \<open>
  Lines 61 to 109: read, transform, write back, count. The four counts of the message are
  taken as the source takes them: the first on the folded content, the other three on the
  content that was written.
\<close>

definition read_transform_write :: "platform \<Rightarrow> world \<Rightarrow> path \<Rightarrow> (bool \<times> message) \<times> world" where
  "read_transform_write P w filepath =
     (case read_text P w filepath of
        (Inl e, w1) \<Rightarrow> ((False, ReadError e), w1)
      | (Inr content, w1) \<Rightarrow>
          let content = fold_variants content;
              original_quote_count = count_list content ASCII_QUOTE;
              content = pair_loop content [] True
          in (case write_text P w1 filepath content of
                (Some e, w2) \<Rightarrow> ((False, WriteError e), w2)
              | (None, w2) \<Rightarrow>
                  let ascii_quote_count = count_list content ASCII_QUOTE;
                      left_quote_count = count_list content LEFT_QUOTE;
                      right_quote_count = count_list content RIGHT_QUOTE
                  in ((True, Completed original_quote_count left_quote_count
                               right_quote_count ascii_quote_count), w2)))"

text \<open>The whole function: the two checks, the optional backup, then the rest.\<close>

definition replace_quotes_in_file ::
    "platform \<Rightarrow> world \<Rightarrow> path \<Rightarrow> bool \<Rightarrow> (bool \<times> message) \<times> world" where
  "replace_quotes_in_file P w filepath backup =
     (if \<not> os_path_exists w filepath then ((False, NotFoundError filepath), w)
      else case splitext filepath of (root, ext) \<Rightarrow>
        if str_lower P ext \<notin> SUPPORTED_EXTENSIONS
        then ((False, UnsupportedTypeError ext), w)
        else if backup then
          (case backup_step w filepath of
             (Some e, w1) \<Rightarrow> ((False, BackupError e), w1)
           | (None, w1) \<Rightarrow> read_transform_write P w1 filepath)
        else read_transform_write P w filepath)"

section \<open>\<^verbatim>\<open>main\<close> (lines 112 to 156)\<close>




section \<open>The batch, file by file\<close>


section \<open>Notions used in the statements\<close>

text \<open>
  The claim about the existence check speaks of a path that "does not resolve to a
  readable file". \<open>resolves_to_readable_file\<close> is that notion in the model: the path names a
  regular file whose read permission is set.
\<close>

definition resolves_to_readable_file :: "world \<Rightarrow> path \<Rightarrow> bool" where
  "resolves_to_readable_file w p = (case nodes w p of Some (File d r wr) \<Rightarrow> r | _ \<Rightarrow> False)"

subsection \<open>A platform and a world for the examples\<close>

text \<open>
  The examples run on a platform that encodes to UTF-8, decodes the files that consist of
  ASCII bytes without carriage return (on which UTF-8 decoding with newline translation is
  the identity) and refuses every other one, and lower-cases no non-ASCII character.
\<close>

definition utf8_char :: "uchar \<Rightarrow> nat list" where
  "utf8_char c =
     (if c < 0x80 then [c]
      else if c < 0x800 then [0xC0 + c div 0x40, 0x80 + c mod 0x40]
      else if c < 0x10000 then [0xE0 + c div 0x1000, 0x80 + c div 0x40 mod 0x40, 0x80 + c mod 0x40]
      else [0xF0 + c div 0x40000, 0x80 + c div 0x1000 mod 0x40, 0x80 + c div 0x40 mod 0x40,
            0x80 + c mod 0x40])"

definition example_platform :: platform where
  "example_platform =
     \<lparr>lower_nonascii = (\<lambda>s i. [s ! i]),
      decode = (\<lambda>bytes. if list_all (\<lambda>b. b < 0x80 \<and> b \<noteq> 0x0D) bytes then Some bytes else None),
      encode = (\<lambda>content. Some (concat (map utf8_char content)))\<rparr>"

text \<open>
  The world of the examples: \<^verbatim>\<open>a.tex\<close> holds \<^verbatim>\<open>say "hi" and "bye"\<close>, \<^verbatim>\<open>b.pdf\<close>,
  \<^verbatim>\<open>.txt\<close> and \<^verbatim>\<open>notes/.md\<close> hold \<^verbatim>\<open>"x"\<close>, \<^verbatim>\<open>c.txt\<close> holds \<^verbatim>\<open>"x\<close>, \<^verbatim>\<open>d.txt\<close> exists
  but may not be read, \<^verbatim>\<open>e.md\<close> is a directory; nothing else exists, every file may be
  created, and the device has room.
\<close>

definition example_world :: world where
  "example_world =
     \<lparr>nodes = map_of
        [(ustr ''a.tex'', File (ustr ''say \"hi\" and \"bye\"'') True True),
         (ustr ''b.pdf'', File (ustr ''\"x\"'') True True),
         (ustr ''c.txt'', File (ustr ''\"x'') True True),
         (ustr ''d.txt'', File (ustr ''\"x\"'') False True),
         (ustr ''.txt'', File (ustr ''\"x\"'') True True),
         (ustr ''notes/.md'', File (ustr ''\"x\"'') True True),
         (ustr ''e.md'', Dir)],
      creatable = (\<lambda>p. True),
      room = (\<lambda>bytes. True),
      trace = []\<rparr>"

section \<open>Properties of the transformation\<close>

subsection \<open>Folding, character by character\<close>

lemma fold_variants_map: "fold_variants s = map fold_char s"
  by (simp add: fold_variants_def str_replace_def QUOTES_TO_REPLACE_def ASCII_QUOTE_def
      fold_char_def)

lemma fold_char_not_variant: "fold_char c \<notin> set QUOTES_TO_REPLACE"
  by (simp add: fold_char_def QUOTES_TO_REPLACE_def ASCII_QUOTE_def)

lemma fold_char_idem: "fold_char (fold_char c) = fold_char c"
  using fold_char_not_variant [of c] by (simp add: fold_char_def)

lemma fold_char_fixed: "c \<notin> set QUOTES_TO_REPLACE \<Longrightarrow> fold_char c = c"
  by (simp add: fold_char_def)

lemma fold_variants_no_variant: "c \<in> set QUOTES_TO_REPLACE \<Longrightarrow> c \<notin> set (fold_variants s)"
  using fold_char_not_variant by (auto simp add: fold_variants_map)

lemma targets_are_variants:
  "LEFT_QUOTE \<in> set QUOTES_TO_REPLACE" "RIGHT_QUOTE \<in> set QUOTES_TO_REPLACE"
  by (simp_all add: QUOTES_TO_REPLACE_def LEFT_QUOTE_def RIGHT_QUOTE_def)

lemma quote_distinct:
  "ASCII_QUOTE \<noteq> LEFT_QUOTE" "ASCII_QUOTE \<noteq> RIGHT_QUOTE" "LEFT_QUOTE \<noteq> RIGHT_QUOTE"
  by (simp_all add: ASCII_QUOTE_def LEFT_QUOTE_def RIGHT_QUOTE_def)

subsection \<open>The pairing loop\<close>

text \<open>The accumulator is only ever extended at its end, so it can be factored out.\<close>

lemma pair_loop_acc: "pair_loop xs acc b = acc @ pair_loop xs [] b"
proof (induction xs arbitrary: acc b)
  case Nil
  show ?case by simp
next
  case (Cons x xs)
  show ?case
    using Cons.IH [of "acc @ [LEFT_QUOTE]" False] Cons.IH [of "acc @ [RIGHT_QUOTE]" True]
      Cons.IH [of "acc @ [x]" b] Cons.IH [of "[LEFT_QUOTE]" False]
      Cons.IH [of "[RIGHT_QUOTE]" True] Cons.IH [of "[x]" b]
    by simp
qed

lemma pair_loop_Cons:
  "pair_loop (x # xs) [] b =
     (if x = ASCII_QUOTE then (if b then LEFT_QUOTE else RIGHT_QUOTE) # pair_loop xs [] (\<not> b)
      else x # pair_loop xs [] b)"
  using pair_loop_acc [of xs "[LEFT_QUOTE]" False] pair_loop_acc [of xs "[RIGHT_QUOTE]" True]
    pair_loop_acc [of xs "[x]" b]
  by simp

lemma length_pair_loop: "length (pair_loop xs [] b) = length xs"
  by (induction xs arbitrary: b) (simp_all add: pair_loop_Cons del: pair_loop.simps(2))

text \<open>
  What the loop writes at position \<open>i\<close>: with \<open>k\<close> quotes before it, a quote becomes
  \<open>LEFT_QUOTE\<close> exactly when the toggle, flipped \<open>k\<close> times, says "opening".
\<close>

lemma pair_loop_nth:
  "i < length xs \<Longrightarrow>
   pair_loop xs [] b ! i =
     (if xs ! i = ASCII_QUOTE
      then (if b = even (count_list (take i xs) ASCII_QUOTE) then LEFT_QUOTE else RIGHT_QUOTE)
      else xs ! i)"
proof (induction xs arbitrary: i b)
  case Nil
  then show ?case by simp
next
  case (Cons x xs)
  show ?case
  proof (cases i)
    case 0
    then show ?thesis by (simp add: pair_loop_Cons del: pair_loop.simps(2))
  next
    case (Suc j)
    with Cons.prems have j: "j < length xs" by simp
    show ?thesis
      using Cons.IH [OF j, of b] Cons.IH [OF j, of "\<not> b"] Suc
      by (auto simp add: pair_loop_Cons simp del: pair_loop.simps(2))
  qed
qed

lemma count_pair_loop_ascii: "count_list (pair_loop xs [] b) ASCII_QUOTE = 0"
  using quote_distinct
  by (induction xs arbitrary: b) (simp_all add: pair_loop_Cons del: pair_loop.simps(2))

lemma count_pair_loop_targets:
  "LEFT_QUOTE \<notin> set xs \<Longrightarrow> RIGHT_QUOTE \<notin> set xs \<Longrightarrow>
   count_list (pair_loop xs [] b) LEFT_QUOTE + count_list (pair_loop xs [] b) RIGHT_QUOTE
     = count_list xs ASCII_QUOTE"
  using quote_distinct
  by (induction xs arbitrary: b) (auto simp add: pair_loop_Cons simp del: pair_loop.simps(2))

lemma length_normalizer: "length (normalizer buf) = length (fold_variants buf)"
  by (simp add: normalizer_def length_pair_loop)

lemmas quote_defs =
  normalizer_def fold_variants_def str_replace_def QUOTES_TO_REPLACE_def
  ASCII_QUOTE_def LEFT_QUOTE_def RIGHT_QUOTE_def

subsection \<open>The claims about the transformation\<close>

text \<open>
  Claim C1 (alternation law). Let \<open>i\<close> be a position of the folded buffer that holds the
  ASCII quote; it is the \<open>n\<close>-th occurrence for \<open>n\<close> the number of ASCII quotes among
  the first \<open>i + 1\<close> characters. The output holds \<open>LEFT_QUOTE\<close> at \<open>i\<close> when \<open>n\<close> is odd
  and \<open>RIGHT_QUOTE\<close> when \<open>n\<close> is even. Consequently, when no ASCII quote follows
  position \<open>i\<close> and the total number of ASCII quotes is odd, the output holds
  \<open>LEFT_QUOTE\<close> at \<open>i\<close>.
\<close>

theorem alternation_law:
  assumes "i < length (fold_variants buf)" and "fold_variants buf ! i = ASCII_QUOTE"
  shows "normalizer buf ! i =
           (if odd (count_list (take (Suc i) (fold_variants buf)) ASCII_QUOTE)
            then LEFT_QUOTE else RIGHT_QUOTE)
         \<and> ((\<forall>j. i < j \<and> j < length (fold_variants buf) \<longrightarrow> fold_variants buf ! j \<noteq> ASCII_QUOTE)
              \<and> odd (count_list (fold_variants buf) ASCII_QUOTE)
            \<longrightarrow> normalizer buf ! i = LEFT_QUOTE)"
proof -
  let ?f = "fold_variants buf"
  have split: "take (Suc i) ?f = take i ?f @ [ASCII_QUOTE]"
    using assms by (simp add: take_Suc_conv_app_nth)
  have nth: "normalizer buf ! i =
      (if even (count_list (take i ?f) ASCII_QUOTE) then LEFT_QUOTE else RIGHT_QUOTE)"
    using pair_loop_nth [OF assms(1), of True] assms(2) by (simp add: normalizer_def)
  have first: "normalizer buf ! i =
      (if odd (count_list (take (Suc i) ?f) ASCII_QUOTE) then LEFT_QUOTE else RIGHT_QUOTE)"
    using nth split by simp
  have last: "normalizer buf ! i = LEFT_QUOTE"
    if none: "\<forall>j. i < j \<and> j < length ?f \<longrightarrow> ?f ! j \<noteq> ASCII_QUOTE"
      and total: "odd (count_list ?f ASCII_QUOTE)"
  proof -
    have "ASCII_QUOTE \<notin> set (drop (Suc i) ?f)"
    proof
      assume "ASCII_QUOTE \<in> set (drop (Suc i) ?f)"
      then obtain k where k: "k < length (drop (Suc i) ?f)" "drop (Suc i) ?f ! k = ASCII_QUOTE"
        by (auto simp add: in_set_conv_nth)
      then have "Suc i + k < length ?f" "?f ! (Suc i + k) = ASCII_QUOTE"
        by simp_all
      with none show False by simp
    qed
    then have "count_list (drop (Suc i) ?f) ASCII_QUOTE = 0"
      by simp
    moreover have "count_list ?f ASCII_QUOTE =
        count_list (take (Suc i) ?f) ASCII_QUOTE + count_list (drop (Suc i) ?f) ASCII_QUOTE"
      using count_list_append [of "take (Suc i) ?f" "drop (Suc i) ?f" ASCII_QUOTE] by simp
    ultimately have "odd (count_list (take (Suc i) ?f) ASCII_QUOTE)"
      using total by simp
    with first show ?thesis by simp
  qed
  from first last show ?thesis by blast
qed

text \<open>
  The buffer \<^verbatim>\<open>"h\<close>\<open>\<bullet>\<close>\<^verbatim>\<open>i\<close>\<open>\<bullet>\<close> with a low-9 quote at position 2 and a fullwidth quote at
  position 4: three quotes after folding, the second becomes \<open>RIGHT_QUOTE\<close> and the third,
  the last of an odd total, \<open>LEFT_QUOTE\<close>.
\<close>

theorem alternation_law_witness:
  "(2::nat) < length (fold_variants [0x22, 0x68, 0x201E, 0x69, 0xFF02])
   \<and> fold_variants [0x22, 0x68, 0x201E, 0x69, 0xFF02] ! 2 = ASCII_QUOTE
   \<and> fold_variants [0x22, 0x68, 0x201E, 0x69, 0xFF02] ! 4 = ASCII_QUOTE
   \<and> odd (count_list (fold_variants [0x22, 0x68, 0x201E, 0x69, 0xFF02]) ASCII_QUOTE)
   \<and> normalizer [0x22, 0x68, 0x201E, 0x69, 0xFF02] ! 2 = RIGHT_QUOTE
   \<and> normalizer [0x22, 0x68, 0x201E, 0x69, 0xFF02] ! 4 = LEFT_QUOTE"
  using alternation_law [of 2 "[0x22, 0x68, 0x201E, 0x69, 0xFF02]"]
    alternation_law [of 4 "[0x22, 0x68, 0x201E, 0x69, 0xFF02]"]
  by (simp add: quote_defs)

text \<open>
  Claim C2 (total pairing coverage). The number of ASCII quotes in the folded buffer equals
  the number of \<open>LEFT_QUOTE\<close> plus the number of \<open>RIGHT_QUOTE\<close> in the output, and the
  output holds no ASCII quote.
\<close>

theorem pairing_coverage:
  "count_list (fold_variants buf) ASCII_QUOTE
     = count_list (normalizer buf) LEFT_QUOTE + count_list (normalizer buf) RIGHT_QUOTE
   \<and> count_list (normalizer buf) ASCII_QUOTE = 0"
  using count_pair_loop_targets [of "fold_variants buf" True]
    fold_variants_no_variant [of LEFT_QUOTE buf] fold_variants_no_variant [of RIGHT_QUOTE buf]
    targets_are_variants count_pair_loop_ascii [of "fold_variants buf" True]
  by (simp add: normalizer_def)

text \<open>
  Claim C3 (non-quote preservation). A position of the input that holds neither one of the
  eight variants nor the ASCII quote is a position of the output and holds the same
  character there; a buffer without any variant or ASCII quote is returned unchanged.
\<close>

theorem non_quote_preservation:
  "(i < length buf \<and> buf ! i \<notin> set QUOTES_TO_REPLACE \<and> buf ! i \<noteq> ASCII_QUOTE
      \<longrightarrow> i < length (normalizer buf) \<and> normalizer buf ! i = buf ! i)
   \<and> ((\<forall>c \<in> set buf. c \<notin> set QUOTES_TO_REPLACE \<and> c \<noteq> ASCII_QUOTE) \<longrightarrow> normalizer buf = buf)"
proof -
  have pos: "i < length (normalizer buf) \<and> normalizer buf ! i = buf ! i"
    if "i < length buf" "buf ! i \<notin> set QUOTES_TO_REPLACE" "buf ! i \<noteq> ASCII_QUOTE" for i
  proof -
    have "fold_variants buf ! i = buf ! i"
      using that by (simp add: fold_variants_map fold_char_fixed)
    moreover have "i < length (fold_variants buf)"
      using that by (simp add: fold_variants_map)
    ultimately show ?thesis
      using pair_loop_nth [of i "fold_variants buf" True] that
      by (simp add: normalizer_def length_pair_loop)
  qed
  have whole: "normalizer buf = buf"
    if "\<forall>c \<in> set buf. c \<notin> set QUOTES_TO_REPLACE \<and> c \<noteq> ASCII_QUOTE"
  proof (rule nth_equalityI)
    show "length (normalizer buf) = length buf"
      by (simp add: length_normalizer fold_variants_map)
    fix k assume "k < length (normalizer buf)"
    then have "k < length buf"
      by (simp add: length_normalizer fold_variants_map)
    with that pos [of k] show "normalizer buf ! k = buf ! k"
      by simp
  qed
  from pos whole show ?thesis by blast
qed

text \<open>
  The buffer \<^verbatim>\<open>a"b\<close>: position 2 holds \<^verbatim>\<open>b\<close> before and after; the buffer \<^verbatim>\<open>ab\<close> is
  returned as it is.
\<close>

theorem non_quote_preservation_witness:
  "(2::nat) < length [0x61, 0x22, 0x62 :: nat]
   \<and> [0x61, 0x22, 0x62 :: nat] ! 2 \<notin> set QUOTES_TO_REPLACE
   \<and> [0x61, 0x22, 0x62 :: nat] ! 2 \<noteq> ASCII_QUOTE
   \<and> normalizer [0x61, 0x22, 0x62] ! 2 = 0x62
   \<and> set [0x61, 0x62 :: nat] \<inter> (set QUOTES_TO_REPLACE \<union> {ASCII_QUOTE}) = {}
   \<and> normalizer [0x61, 0x62] = [0x61, 0x62]"
  using non_quote_preservation [of 2 "[0x61, 0x22, 0x62]"]
    non_quote_preservation [of 0 "[0x61, 0x62]"]
  by (simp add: QUOTES_TO_REPLACE_def ASCII_QUOTE_def)

text \<open>
  Claim C8 (folding idempotence). Folding a folded buffer changes nothing, and no variant
  character occurs in a folded buffer.
\<close>

theorem folding_idempotent:
  "fold_variants (fold_variants buf) = fold_variants buf
   \<and> set (fold_variants buf) \<inter> set QUOTES_TO_REPLACE = {}"
proof
  show "fold_variants (fold_variants buf) = fold_variants buf"
    by (simp add: fold_variants_map fold_char_idem)
  show "set (fold_variants buf) \<inter> set QUOTES_TO_REPLACE = {}"
    using fold_variants_no_variant [of _ buf] by blast
qed

text \<open>
  Claim C9 (length preservation). The output has as many characters as the input.
\<close>

theorem length_preserved: "length (normalizer buf) = length buf"
  by (simp add: length_normalizer fold_variants_map)

section \<open>Properties of the environment\<close>

subsection \<open>Worlds\<close>

lemma nodes_emit [simp]: "nodes (emit w e) = nodes w"
  by (simp add: emit_def)

lemma trace_emit [simp]: "trace (emit w e) = trace w @ [e]"
  by (simp add: emit_def)

lemma creatable_emit [simp]: "creatable (emit w e) = creatable w"
  by (simp add: emit_def)

lemma room_emit [simp]: "room (emit w e) = room w"
  by (simp add: emit_def)

lemma nodes_put [simp]: "nodes (put w p n) = (nodes w)(p \<mapsto> n)"
  by (simp add: put_def)

lemma trace_put [simp]: "trace (put w p n) = trace w"
  by (simp add: put_def)

subsection \<open>\<open>rfind\<close>, \<open>splitext\<close> and \<open>basename\<close>\<close>









lemma rfind_below_tail:
  "n \<le> length p \<Longrightarrow> c \<notin> set (drop (nat (rfind_below p c n + 1)) (take n p))"
proof (induction n)
  case 0
  then show ?case by simp
next
  case (Suc n)
  then have n: "n < length p" by simp
  show ?case
  proof (cases "p ! n = c")
    case True
    then show ?thesis by simp
  next
    case False
    have "set (drop k (take n p @ [p ! n])) \<subseteq> set (drop k (take n p)) \<union> {p ! n}" for k
      by (auto dest: in_set_dropD)
    with False Suc.IH n show ?thesis
      by (auto simp add: take_Suc_conv_app_nth simp del: drop_append)
  qed
qed

lemma basename_no_sep: "SEP \<notin> set (basename p)"
  using rfind_below_tail [of "length p" p SEP] by (simp add: basename_def rfind_def)

lemma path_join_longer: "SEP \<notin> set b \<Longrightarrow> length a \<le> length (path_join a b)"
  by (cases b) (auto simp add: path_join_def)

lemma backup_target_neq: "copy2_target w p (p @ ustr ''.bak'') \<noteq> p"
proof
  assume eq: "copy2_target w p (p @ ustr ''.bak'') = p"
  have "length p < length (p @ ustr ''.bak'')"
    by (simp add: ustr_def)
  also have "\<dots> \<le> length (copy2_target w p (p @ ustr ''.bak''))"
    using path_join_longer [OF basename_no_sep, of "p @ ustr ''.bak''" p]
    by (simp add: copy2_target_def)
  finally show False using eq by simp
qed

text \<open>
  Each of the six supported suffixes is a dot followed by characters that are neither a dot
  nor a separator.
\<close>

lemma supported_shape:
  "e \<in> SUPPORTED_EXTENSIONS \<Longrightarrow> \<exists>rest. e = DOT # rest \<and> DOT \<notin> set rest \<and> SEP \<notin> set rest"
  by (auto simp add: SUPPORTED_EXTENSIONS_def ustr_def DOT_def SEP_def)

subsection \<open>Copying, reading and writing\<close>

lemma copy2_target_emit: "copy2_target (emit w e) src dst = copy2_target w src dst"
  by (simp add: copy2_target_def os_path_isdir_def)

lemma copyfile_src: "nodes (snd (copyfile w src dst)) src = nodes w src"
  by (auto simp add: copyfile_def os_path_exists_def split: option.splits node.splits)

lemma copyfile_trace: "trace (snd (copyfile w src dst)) = trace w"
  by (auto simp add: copyfile_def split: option.splits node.splits)

lemma copyfile_ok:
  "copyfile w src dst = (None, w') \<Longrightarrow>
   \<exists>d r wr r' wr'. nodes w src = Some (File d r wr) \<and> nodes w' src = Some (File d r wr)
      \<and> nodes w' dst = Some (File d r' wr') \<and> trace w' = trace w"
  by (auto simp add: copyfile_def os_path_exists_def split: option.splits node.splits if_splits)

lemma copystat_src: "nodes (copystat w src dst) src = nodes w src"
  by (auto simp add: copystat_def split: option.splits node.splits)

lemma copystat_trace: "trace (copystat w src dst) = trace w"
  by (auto simp add: copystat_def split: option.splits node.splits)

lemma copystat_ok:
  "nodes w src = Some (File d r wr) \<Longrightarrow> nodes w dst = Some (File d r' wr') \<Longrightarrow>
   nodes (copystat w src dst) dst = Some (File d r wr)"
  by (simp add: copystat_def)

lemma shutil_copy2_src: "nodes (snd (shutil_copy2 w src dst)) src = nodes w src"
proof -
  let ?w1 = "emit w (Copy2 src dst)"
  let ?t = "copy2_target ?w1 src dst"
  obtain r w2 where c: "copyfile ?w1 src ?t = (r, w2)"
    by (cases "copyfile ?w1 src ?t")
  have "nodes w2 src = nodes w src"
    using copyfile_src [of ?w1 src ?t] c by simp
  then show ?thesis
    using c by (cases r) (simp_all add: shutil_copy2_def Let_def copystat_src)
qed

lemma shutil_copy2_trace: "trace (snd (shutil_copy2 w src dst)) = trace w @ [Copy2 src dst]"
proof -
  let ?w1 = "emit w (Copy2 src dst)"
  let ?t = "copy2_target ?w1 src dst"
  obtain r w2 where c: "copyfile ?w1 src ?t = (r, w2)"
    by (cases "copyfile ?w1 src ?t")
  have "trace w2 = trace w @ [Copy2 src dst]"
    using copyfile_trace [of ?w1 src ?t] c by simp
  then show ?thesis
    using c by (cases r) (simp_all add: shutil_copy2_def Let_def copystat_trace)
qed

lemma shutil_copy2_ok:
  assumes "shutil_copy2 w src dst = (None, w')"
  shows "\<exists>d r wr. nodes w src = Some (File d r wr)
           \<and> nodes w' (copy2_target w src dst) = Some (File d r wr)"
proof -
  let ?w1 = "emit w (Copy2 src dst)"
  let ?t = "copy2_target w src dst"
  obtain res w2 where c: "copyfile ?w1 src ?t = (res, w2)"
    by (cases "copyfile ?w1 src ?t")
  from assms c have res: "res = None" and w': "w' = copystat w2 src ?t"
    by (cases res; simp add: shutil_copy2_def Let_def copy2_target_emit)+
  from copyfile_ok [of ?w1 src ?t w2] c res
  obtain d r wr r' wr' where
    "nodes w src = Some (File d r wr)" "nodes w2 src = Some (File d r wr)"
    "nodes w2 ?t = Some (File d r' wr')"
    by auto
  then show ?thesis
    using copystat_ok [of w2 src d r wr ?t r' wr'] w' by simp
qed

lemma read_text_world: "snd (read_text P w p) = emit w (OpenRead p)"
  by (auto simp add: read_text_def Let_def split: option.splits node.splits)

lemma write_text_other: "q \<noteq> p \<Longrightarrow> nodes (snd (write_text P w p c)) q = nodes w q"
  by (auto simp add: write_text_def Let_def split: option.splits node.splits)

lemma write_text_trace: "trace (snd (write_text P w p c)) = trace w @ [OpenWrite p]"
  by (auto simp add: write_text_def Let_def split: option.splits node.splits)

lemma rtw_other:
  "q \<noteq> p \<Longrightarrow> nodes (snd (read_transform_write P w p)) q = nodes w q"
proof -
  assume q: "q \<noteq> p"
  obtain r where r: "read_text P w p = (r, emit w (OpenRead p))"
    using read_text_world [of P w p] by (cases "read_text P w p") simp
  show ?thesis
  proof (cases r)
    case (Inl e)
    with r show ?thesis by (simp add: read_transform_write_def)
  next
    case (Inr content)
    let ?c = "pair_loop (fold_variants content) [] True"
    obtain res w2 where wr: "write_text P (emit w (OpenRead p)) p ?c = (res, w2)"
      by (cases "write_text P (emit w (OpenRead p)) p ?c")
    have "nodes w2 q = nodes w q"
      using write_text_other [OF q, of P "emit w (OpenRead p)" ?c] wr by simp
    with r Inr wr show ?thesis
      by (cases res) (simp_all add: read_transform_write_def Let_def)
  qed
qed

lemma rtw_trace:
  "\<exists>rest. trace (snd (read_transform_write P w p)) = trace w @ [OpenRead p] @ rest
      \<and> (rest = [] \<or> rest = [OpenWrite p])"
proof -
  obtain r where r: "read_text P w p = (r, emit w (OpenRead p))"
    using read_text_world [of P w p] by (cases "read_text P w p") simp
  show ?thesis
  proof (cases r)
    case (Inl e)
    with r show ?thesis by (simp add: read_transform_write_def)
  next
    case (Inr content)
    let ?c = "pair_loop (fold_variants content) [] True"
    obtain res w2 where wr: "write_text P (emit w (OpenRead p)) p ?c = (res, w2)"
      by (cases "write_text P (emit w (OpenRead p)) p ?c")
    have "trace w2 = trace w @ [OpenRead p, OpenWrite p]"
      using write_text_trace [of P "emit w (OpenRead p)" p ?c] wr by simp
    with r Inr wr show ?thesis
      by (cases res) (simp_all add: read_transform_write_def Let_def)
  qed
qed

text \<open>
  What a successful run reports (lines 99 to 109): the counts of the folded content and of the
  content written, so the first count is the sum of the second and third, and the fourth
  is 0.
\<close>

lemma rtw_completed:
  assumes "fst (read_transform_write P w p) = (True, m)"
  shows "\<exists>content. fst (read_text P w p) = Inr content
     \<and> fst (write_text P (emit w (OpenRead p)) p (normalizer content)) = None
     \<and> m = Completed (count_list (fold_variants content) ASCII_QUOTE)
            (count_list (normalizer content) LEFT_QUOTE)
            (count_list (normalizer content) RIGHT_QUOTE)
            (count_list (normalizer content) ASCII_QUOTE)"
proof -
  obtain r where r: "read_text P w p = (r, emit w (OpenRead p))"
    using read_text_world [of P w p] by (cases "read_text P w p") simp
  show ?thesis
  proof (cases r)
    case (Inl e)
    with r assms show ?thesis by (simp add: read_transform_write_def)
  next
    case (Inr content)
    obtain res w2 where wr: "write_text P (emit w (OpenRead p)) p (normalizer content) = (res, w2)"
      by (cases "write_text P (emit w (OpenRead p)) p (normalizer content)")
    with r Inr assms show ?thesis
      by (cases res) (simp_all add: read_transform_write_def Let_def normalizer_def)
  qed
qed

lemma completed_counts:
  assumes "fst (replace_quotes_in_file P w p backup) = (True, m)"
  shows "\<exists>n l r. m = Completed n l r 0 \<and> n = l + r"
proof -
  have "\<exists>w'. fst (read_transform_write P w' p) = (True, m)"
    using assms
    by (auto simp add: replace_quotes_in_file_def split: if_splits prod.splits option.splits)
  then obtain w' where "fst (read_transform_write P w' p) = (True, m)" ..
  from rtw_completed [OF this] obtain content where
    "m = Completed (count_list (fold_variants content) ASCII_QUOTE)
            (count_list (normalizer content) LEFT_QUOTE)
            (count_list (normalizer content) RIGHT_QUOTE)
            (count_list (normalizer content) ASCII_QUOTE)"
    by blast
  moreover have "count_list (normalizer content) ASCII_QUOTE = 0"
    by (simp add: normalizer_def count_pair_loop_ascii)
  moreover have "count_list (fold_variants content) ASCII_QUOTE
      = count_list (normalizer content) LEFT_QUOTE + count_list (normalizer content) RIGHT_QUOTE"
    using count_pair_loop_targets [of "fold_variants content" True]
      fold_variants_no_variant [of LEFT_QUOTE content]
      fold_variants_no_variant [of RIGHT_QUOTE content] targets_are_variants
    by (simp add: normalizer_def)
  ultimately show ?thesis by simp
qed

subsection \<open>The loop of \<open>main\<close>\<close>





text \<open>The definitions that evaluate the examples.\<close>

lemmas eval_defs =
  replace_quotes_in_file_def os_path_exists_def os_path_isdir_def example_world_def
  example_platform_def ustr_def splitext_def rfind_def SEP_def DOT_def str_lower_def
  ascii_lower_def SUPPORTED_EXTENSIONS_def read_transform_write_def read_text_def
  write_text_def backup_step_def shutil_copy2_def copy2_target_def copyfile_def copystat_def
  emit_def put_def upt_rec Let_def utf8_char_def
  fold_variants_def str_replace_def QUOTES_TO_REPLACE_def ASCII_QUOTE_def LEFT_QUOTE_def
  RIGHT_QUOTE_def

section \<open>The claims about files and batches\<close>

text \<open>
  With an unsupported suffix nothing is touched, whether the path exists or not: the
  function fails and returns the world as it was.
\<close>

lemma unsupported_no_effect:
  assumes "str_lower P (snd (splitext filepath)) \<notin> SUPPORTED_EXTENSIONS"
  shows "\<not> fst (fst (replace_quotes_in_file P w filepath backup))
         \<and> snd (replace_quotes_in_file P w filepath backup) = w"
  using assms by (cases "splitext filepath") (simp add: replace_quotes_in_file_def)

text \<open>
  Claim C4 (extension gating), as stated: for every file path whose suffix is not supported,
  processing fails with the unsupported-type error. The check of the suffix (line 47) comes
  after the check of existence (line 43): \<^verbatim>\<open>missing.pdf\<close> has an unsupported suffix and does
  not exist in the world of the examples, and the failure reported for it is the not-found
  error, not the unsupported-type error.
\<close>

theorem extension_gating_counterexample:
  "str_lower example_platform (snd (splitext (ustr ''missing.pdf''))) \<notin> SUPPORTED_EXTENSIONS
   \<and> snd (splitext (ustr ''missing.pdf'')) = ustr ''.pdf''
   \<and> fst (replace_quotes_in_file example_platform example_world (ustr ''missing.pdf'') True)
        = (False, NotFoundError (ustr ''missing.pdf''))
   \<and> fst (replace_quotes_in_file example_platform example_world (ustr ''missing.pdf'') True)
        \<noteq> (False, UnsupportedTypeError (ustr ''.pdf''))"
  by (simp add: eval_defs)

text \<open>
  Claim C4, amended: for every path that exists and whose suffix, as \<^verbatim>\<open>os.path.splitext\<close>
  gives it and lower-cased, is outside the supported set, \<open>replace_quotes_in_file\<close> fails
  with the unsupported-type error for that suffix and returns the world as it was: no file
  is changed or created, and the trace is unchanged, so nothing was copied, opened for
  reading or opened for writing.
\<close>

theorem extension_gating:
  assumes "os_path_exists w filepath"
    and "str_lower P (snd (splitext filepath)) \<notin> SUPPORTED_EXTENSIONS"
  shows "replace_quotes_in_file P w filepath backup
           = ((False, UnsupportedTypeError (snd (splitext filepath))), w)"
  using assms by (cases "splitext filepath") (simp add: replace_quotes_in_file_def)

text \<open>\<^verbatim>\<open>b.pdf\<close> exists in the world of the examples and is rejected, the world untouched.\<close>

theorem extension_gating_witness:
  "os_path_exists example_world (ustr ''b.pdf'')
   \<and> str_lower example_platform (snd (splitext (ustr ''b.pdf''))) \<notin> SUPPORTED_EXTENSIONS
   \<and> replace_quotes_in_file example_platform example_world (ustr ''b.pdf'') True
        = ((False, UnsupportedTypeError (ustr ''.pdf'')), example_world)"
proof -
  have ex: "os_path_exists example_world (ustr ''b.pdf'')"
    by (simp add: eval_defs)
  have ext: "str_lower example_platform (snd (splitext (ustr ''b.pdf''))) \<notin> SUPPORTED_EXTENSIONS"
    by (simp add: eval_defs)
  have suffix: "snd (splitext (ustr ''b.pdf'')) = ustr ''.pdf''"
    by (simp add: eval_defs)
  from extension_gating [OF ex ext, of True] suffix
  have "replace_quotes_in_file example_platform example_world (ustr ''b.pdf'') True
        = ((False, UnsupportedTypeError (ustr ''.pdf'')), example_world)"
    by simp
  with ex ext show ?thesis
    by simp
qed

text \<open>
  Claim C5 (existence check), as stated: every path that does not resolve to a readable file
  fails with the not-found error, and no backup is attempted. The check of line 43 is
  \<^verbatim>\<open>os.path.exists\<close>, which is true of a file that may not be read and of a directory.
  In the world of the examples \<^verbatim>\<open>d.txt\<close> is such a file and \<^verbatim>\<open>e.md\<close> such a directory:
  for both the backup is attempted and the failure reported is that of the backup; with the
  backup disabled, \<^verbatim>\<open>d.txt\<close> fails when it is read.
\<close>

theorem existence_check_counterexample:
  "\<not> resolves_to_readable_file example_world (ustr ''d.txt'')
   \<and> fst (replace_quotes_in_file example_platform example_world (ustr ''d.txt'') True)
        = (False, BackupError PermissionError)
   \<and> trace (snd (replace_quotes_in_file example_platform example_world (ustr ''d.txt'') True))
        = [Copy2 (ustr ''d.txt'') (ustr ''d.txt.bak'')]
   \<and> fst (replace_quotes_in_file example_platform example_world (ustr ''d.txt'') False)
        = (False, ReadError PermissionError)
   \<and> \<not> resolves_to_readable_file example_world (ustr ''e.md'')
   \<and> fst (replace_quotes_in_file example_platform example_world (ustr ''e.md'') True)
        = (False, BackupError IsADirectoryError)"
  by (simp add: resolves_to_readable_file_def eval_defs)

text \<open>
  Claim C5, amended: every path for which \<^verbatim>\<open>os.path.exists\<close> is false fails with the
  not-found error, and the world is returned as it was (nothing copied, read or written).
\<close>

theorem missing_path_rejected:
  assumes "\<not> os_path_exists w filepath"
  shows "replace_quotes_in_file P w filepath backup = ((False, NotFoundError filepath), w)"
  using assms by (simp add: replace_quotes_in_file_def)

theorem missing_path_rejected_witness:
  "\<not> os_path_exists example_world (ustr ''missing.txt'')
   \<and> replace_quotes_in_file example_platform example_world (ustr ''missing.txt'') True
        = ((False, NotFoundError (ustr ''missing.txt'')), example_world)"
proof -
  have "\<not> os_path_exists example_world (ustr ''missing.txt'')"
    by (simp add: eval_defs)
  then show ?thesis
    using missing_path_rejected [of example_world "ustr ''missing.txt''" example_platform True]
    by simp
qed

text \<open>
  Claim C6 (backup). Let the file exist and have a supported suffix, and let the backup be
  enabled, so that the backup step is reached: \<^verbatim>\<open>shutil.copy2(filepath, filepath + '.bak')\<close>.

  \<^item> If the copy fails with \<open>e\<close>, the function returns the backup error \<open>e\<close> in the world the
    failed copy left: the original is as it was, and the only call made is the copy (the
    file is neither read nor written).
  \<^item> If the copy succeeds, the file that received the copy holds the bytes and permissions
    of the original, the original is still as it was, and the function continues with
    reading, transforming and writing in that world. When the function returns, the
    backup still holds the original, untransformed bytes, and in the trace the copy comes
    first: it precedes the reading and the writing of the original.
\<close>

theorem backup_fidelity:
  assumes ex: "os_path_exists w filepath"
    and ext: "str_lower P (snd (splitext filepath)) \<in> SUPPORTED_EXTENSIONS"
  shows
    "(\<forall>e w1. shutil_copy2 w filepath (filepath @ ustr ''.bak'') = (Some e, w1) \<longrightarrow>
        replace_quotes_in_file P w filepath True = ((False, BackupError e), w1)
        \<and> nodes w1 filepath = nodes w filepath
        \<and> trace w1 = trace w @ [Copy2 filepath (filepath @ ustr ''.bak'')])
     \<and> (\<forall>w1. shutil_copy2 w filepath (filepath @ ustr ''.bak'') = (None, w1) \<longrightarrow>
        (\<exists>d r wr.
           nodes w filepath = Some (File d r wr)
           \<and> nodes w1 filepath = Some (File d r wr)
           \<and> nodes w1 (copy2_target w filepath (filepath @ ustr ''.bak'')) = Some (File d r wr)
           \<and> replace_quotes_in_file P w filepath True
               = read_transform_write P
                   (emit w1 (Stdout (BackupCreated (filepath @ ustr ''.bak'')))) filepath
           \<and> nodes (snd (replace_quotes_in_file P w filepath True))
                 (copy2_target w filepath (filepath @ ustr ''.bak'')) = Some (File d r wr)
           \<and> (\<exists>rest. trace (snd (replace_quotes_in_file P w filepath True))
                 = trace w @ [Copy2 filepath (filepath @ ustr ''.bak''),
                              Stdout (BackupCreated (filepath @ ustr ''.bak'')),
                              OpenRead filepath] @ rest
                 \<and> (rest = [] \<or> rest = [OpenWrite filepath]))))"
proof -
  let ?bak = "filepath @ ustr ''.bak''"
  let ?t = "copy2_target w filepath ?bak"
  have run: "replace_quotes_in_file P w filepath True =
      (case backup_step w filepath of
         (Some e, w1) \<Rightarrow> ((False, BackupError e), w1)
       | (None, w1) \<Rightarrow> read_transform_write P w1 filepath)"
    using ex ext by (cases "splitext filepath") (simp add: replace_quotes_in_file_def)
  have failure: "replace_quotes_in_file P w filepath True = ((False, BackupError e), w1)
        \<and> nodes w1 filepath = nodes w filepath
        \<and> trace w1 = trace w @ [Copy2 filepath ?bak]"
    if c: "shutil_copy2 w filepath ?bak = (Some e, w1)" for e w1
    using c shutil_copy2_src [of w filepath ?bak] shutil_copy2_trace [of w filepath ?bak]
    by (simp add: run backup_step_def Let_def)
  have success: "\<exists>d r wr.
           nodes w filepath = Some (File d r wr)
           \<and> nodes w1 filepath = Some (File d r wr)
           \<and> nodes w1 ?t = Some (File d r wr)
           \<and> replace_quotes_in_file P w filepath True
               = read_transform_write P (emit w1 (Stdout (BackupCreated ?bak))) filepath
           \<and> nodes (snd (replace_quotes_in_file P w filepath True)) ?t = Some (File d r wr)
           \<and> (\<exists>rest. trace (snd (replace_quotes_in_file P w filepath True))
                 = trace w @ [Copy2 filepath ?bak, Stdout (BackupCreated ?bak),
                              OpenRead filepath] @ rest
                 \<and> (rest = [] \<or> rest = [OpenWrite filepath]))"
    if c: "shutil_copy2 w filepath ?bak = (None, w1)" for w1
  proof -
    let ?w2 = "emit w1 (Stdout (BackupCreated ?bak))"
    from shutil_copy2_ok [OF c] obtain d r wr where
      src: "nodes w filepath = Some (File d r wr)" and tgt: "nodes w1 ?t = Some (File d r wr)"
      by blast
    have src1: "nodes w1 filepath = Some (File d r wr)"
      using shutil_copy2_src [of w filepath ?bak] c src by simp
    have tr1: "trace w1 = trace w @ [Copy2 filepath ?bak]"
      using shutil_copy2_trace [of w filepath ?bak] c by simp
    have rest: "replace_quotes_in_file P w filepath True = read_transform_write P ?w2 filepath"
      using c by (simp add: run backup_step_def Let_def)
    have kept: "nodes (snd (read_transform_write P ?w2 filepath)) ?t = Some (File d r wr)"
      using rtw_other [of ?t filepath P ?w2] backup_target_neq [of w filepath] tgt by simp
    from rtw_trace [of P ?w2 filepath] obtain rest' where
      "trace (snd (read_transform_write P ?w2 filepath)) = trace ?w2 @ [OpenRead filepath] @ rest'"
      "rest' = [] \<or> rest' = [OpenWrite filepath]"
      by blast
    with tr1 have "trace (snd (read_transform_write P ?w2 filepath))
        = trace w @ [Copy2 filepath ?bak, Stdout (BackupCreated ?bak), OpenRead filepath] @ rest'
        \<and> (rest' = [] \<or> rest' = [OpenWrite filepath])"
      by simp
    then have "\<exists>rest. trace (snd (read_transform_write P ?w2 filepath))
        = trace w @ [Copy2 filepath ?bak, Stdout (BackupCreated ?bak), OpenRead filepath] @ rest
        \<and> (rest = [] \<or> rest = [OpenWrite filepath])"
      by blast
    with src src1 tgt rest kept show ?thesis
      by simp
  qed
  from failure success show ?thesis
    by blast
qed

text \<open>
  \<^verbatim>\<open>a.tex\<close> in the world of the examples: the copy succeeds, \<^verbatim>\<open>a.tex.bak\<close> ends with the
  original bytes and \<^verbatim>\<open>a.tex\<close> with the transformed ones. \<^verbatim>\<open>d.txt\<close>: the copy fails, and
  \<^verbatim>\<open>d.txt\<close> is as before.
\<close>

theorem backup_fidelity_witness:
  "os_path_exists example_world (ustr ''a.tex'')
   \<and> str_lower example_platform (snd (splitext (ustr ''a.tex''))) \<in> SUPPORTED_EXTENSIONS
   \<and> fst (shutil_copy2 example_world (ustr ''a.tex'') (ustr ''a.tex'' @ ustr ''.bak'')) = None
   \<and> nodes example_world (ustr ''a.tex'') = Some (File (ustr ''say \"hi\" and \"bye\"'') True True)
   \<and> nodes (snd (replace_quotes_in_file example_platform example_world (ustr ''a.tex'') True))
        (ustr ''a.tex.bak'') = Some (File (ustr ''say \"hi\" and \"bye\"'') True True)
   \<and> nodes (snd (replace_quotes_in_file example_platform example_world (ustr ''a.tex'') True))
        (ustr ''a.tex'')
        = Some (File (ustr ''say '' @ [0xE2, 0x80, 0x9C] @ ustr ''hi'' @ [0xE2, 0x80, 0x9D]
                      @ ustr '' and '' @ [0xE2, 0x80, 0x9C] @ ustr ''bye'' @ [0xE2, 0x80, 0x9D])
                  True True)
   \<and> os_path_exists example_world (ustr ''d.txt'')
   \<and> str_lower example_platform (snd (splitext (ustr ''d.txt''))) \<in> SUPPORTED_EXTENSIONS
   \<and> fst (shutil_copy2 example_world (ustr ''d.txt'') (ustr ''d.txt'' @ ustr ''.bak''))
        = Some PermissionError
   \<and> fst (replace_quotes_in_file example_platform example_world (ustr ''d.txt'') True)
        = (False, BackupError PermissionError)
   \<and> nodes (snd (replace_quotes_in_file example_platform example_world (ustr ''d.txt'') True))
        (ustr ''d.txt'') = nodes example_world (ustr ''d.txt'')"
proof -
  let ?a = "ustr ''a.tex''" and ?d = "ustr ''d.txt''"
  have ex_a: "os_path_exists example_world ?a"
    and ext_a: "str_lower example_platform (snd (splitext ?a)) \<in> SUPPORTED_EXTENSIONS"
    and ex_d: "os_path_exists example_world ?d"
    and ext_d: "str_lower example_platform (snd (splitext ?d)) \<in> SUPPORTED_EXTENSIONS"
    by (simp_all add: eval_defs)
  have copy_a: "fst (shutil_copy2 example_world ?a (?a @ ustr ''.bak'')) = None"
    and copy_d: "fst (shutil_copy2 example_world ?d (?d @ ustr ''.bak'')) = Some PermissionError"
    by (simp_all add: eval_defs)
  have target: "copy2_target example_world ?a (?a @ ustr ''.bak'') = ustr ''a.tex.bak''"
    and orig: "nodes example_world ?a = Some (File (ustr ''say \"hi\" and \"bye\"'') True True)"
    by (simp_all add: eval_defs)
  obtain w1 where w1: "shutil_copy2 example_world ?a (?a @ ustr ''.bak'') = (None, w1)"
    using copy_a by (cases "shutil_copy2 example_world ?a (?a @ ustr ''.bak'')") simp
  obtain w2 where w2: "shutil_copy2 example_world ?d (?d @ ustr ''.bak'') = (Some PermissionError, w2)"
    using copy_d by (cases "shutil_copy2 example_world ?d (?d @ ustr ''.bak'')") simp
  have kept: "nodes (snd (replace_quotes_in_file example_platform example_world ?a True))
      (ustr ''a.tex.bak'') = Some (File (ustr ''say \"hi\" and \"bye\"'') True True)"
    using backup_fidelity [OF ex_a ext_a] w1 target orig by auto
  have stopped: "fst (replace_quotes_in_file example_platform example_world ?d True)
        = (False, BackupError PermissionError)
      \<and> nodes (snd (replace_quotes_in_file example_platform example_world ?d True)) ?d
        = nodes example_world ?d"
    using backup_fidelity [OF ex_d ext_d] w2 by auto
  have written: "nodes (snd (replace_quotes_in_file example_platform example_world ?a True)) ?a
      = Some (File (ustr ''say '' @ [0xE2, 0x80, 0x9C] @ ustr ''hi'' @ [0xE2, 0x80, 0x9D]
                      @ ustr '' and '' @ [0xE2, 0x80, 0x9C] @ ustr ''bye'' @ [0xE2, 0x80, 0x9D])
                True True)"
    by (simp add: eval_defs)
  from ex_a ext_a copy_a orig kept written ex_d ext_d copy_d stopped show ?thesis
    by simp
qed





end
